theory Spec2Isabelle
  imports Complex_Main "HOL-Library.AList" "HOL-Library.Word"
begin

section \<open>The relearn library: policy table and Q-learning updates\<close>

text \<open>
  A shallow embedding of \<^verbatim>\<open>src/relearn.hpp\<close>: the wrappers \<^verbatim>\<open>state\<close> and
  \<^verbatim>\<open>action\<close>, the pair \<^verbatim>\<open>link\<close>, the class \<^verbatim>\<open>policy\<close> and the two
  algorithms \<^verbatim>\<open>q_learning\<close> and \<^verbatim>\<open>q_probabilistic\<close>.

  Conventions of the embedding.
  \<^item> \<^verbatim>\<open>value_type\<close> (\<^verbatim>\<open>double\<close> by default) is the type \<open>real\<close>: rounding is not modelled.
  \<^item> \<^verbatim>\<open>std::size_t\<close> counters are \<open>64 word\<close>, so that \<^verbatim>\<open>++\<close> wraps as in the code.
  \<^item> An \<^verbatim>\<open>std::unordered_map\<close> is an association list: the list is the sequence in which
    the container is iterated, keys are looked up with \<open>map_of\<close>. The container leaves the place
    of a new key in that sequence open; the model appends it. No theorem below depends on that
    choice: the theorems about \<^verbatim>\<open>best_action\<close> hold for every list.
  \<^item> \<^verbatim>\<open>state::operator==\<close> and \<^verbatim>\<open>state::hash\<close> read the trait only, so a map keyed by
    states is keyed by \<open>trait s\<close>; the reward of a state is payload.
  \<^item> Member functions that write the table through \<^verbatim>\<open>operator[]\<close> return the new table
    beside their result.
  \<^item> Indexing a \<^verbatim>\<open>std::deque\<close> out of range and dividing a \<^verbatim>\<open>size_t\<close> by zero are
    undefined in C++; both are values of the type \<open>error\<close>.
  \<^item> The loop counters and the index of \<^verbatim>\<open>q_value\<close> (\<^verbatim>\<open>unsigned int\<close>, compared with a
    \<^verbatim>\<open>size_t\<close> size) are natural numbers. The model is the code for episodes of fewer than
    \<open>2 ^ 32\<close> links, for which the counter never wraps; on a longer episode the counter of the
    code wraps to 0 before it reaches the size and the loop does not end. Every theorem below
    about an episode of arbitrary length therefore assumes \<open>length ep < 2 ^ 32\<close>.
\<close>

subsection \<open>Data model\<close>

text \<open>
  The classes \<^verbatim>\<open>state\<close> (lines 76--109), \<^verbatim>\<open>action\<close> (lines 130--156) and the struct
  \<^verbatim>\<open>link\<close> (lines 170--180). The maps are the member \<^verbatim>\<open>__policies__\<close> of \<^verbatim>\<open>policy\<close>
  (lines 242--247) and the types \<^verbatim>\<open>frequency\<close>, \<^verbatim>\<open>transition\<close> and \<^verbatim>\<open>observation\<close> of
  \<^verbatim>\<open>q_probabilistic\<close> (lines 321--331).
\<close>

record 't state =
  reward :: real
  trait :: 't

datatype 'u action = Action 'u

record ('t, 'u) link =
  state :: "'t state"
  action :: "'u action"

type_synonym 'u action_map = "('u action \<times> real) list"

type_synonym ('t, 'u) policy = "('t \<times> 'u action_map) list"

type_synonym 't frequency = "('t \<times> 64 word) list"

type_synonym ('t, 'u) transition = "('u action \<times> 't frequency) list"

type_synonym ('t, 'u) observation = "('t \<times> ('t, 'u) transition) list"

type_synonym ('t, 'u) triplet = "'t state \<times> 'u action \<times> real"

datatype error = OutOfRange | DivisionByZero

subsection \<open>\<^verbatim>\<open>std::unordered_map::operator[]\<close>\<close>

text \<open>
  \<^verbatim>\<open>m[k]\<close> refers to the value stored under \<open>k\<close>; when \<open>k\<close> is absent it first inserts
  \<open>k\<close> with a value-initialised value \<open>d\<close>. \<open>find_or\<close> is the value referred to,
  \<open>subscript\<close> is the container afterwards.
\<close>

definition find_or :: "'v \<Rightarrow> ('k \<times> 'v) list \<Rightarrow> 'k \<Rightarrow> 'v" where
  "find_or d m k = (case map_of m k of None \<Rightarrow> d | Some v \<Rightarrow> v)"

definition subscript :: "('k \<times> 'v) list \<Rightarrow> 'k \<Rightarrow> 'v \<Rightarrow> ('k \<times> 'v) list" where
  "subscript m k d = (case map_of m k of None \<Rightarrow> m @ [(k, d)] | Some v \<Rightarrow> m)"

subsection \<open>\<^verbatim>\<open>std::max_element\<close> with the comparison of the second components\<close>

text \<open>
  \<^verbatim>\<open>std::max_element\<close> keeps the first element and replaces it by a later one only when the
  comparison \<^verbatim>\<open>lhs.second < rhs.second\<close> holds; on an empty range it returns \<^verbatim>\<open>end()\<close>.
\<close>

fun max_element :: "('k \<times> real) list \<Rightarrow> ('k \<times> real) option" where
  "max_element [] = None"
| "max_element (x # xs) =
     Some (fold (\<lambda>y largest. if snd largest < snd y then y else largest) xs x)"

subsection \<open>Class \<^verbatim>\<open>policy\<close>\<close>

text \<open>\<^verbatim>\<open>policy::actions\<close> (lines 592--599): \<^verbatim>\<open>return __policies__[s_t];\<close>\<close>

definition actions :: "('t, 'u) policy \<Rightarrow> 't state \<Rightarrow> 'u action_map \<times> ('t, 'u) policy" where
  "actions p s_t = (find_or [] p (trait s_t), subscript p (trait s_t) [])"

text \<open>\<^verbatim>\<open>policy::update\<close> (lines 601--609): \<^verbatim>\<open>__policies__[s_t][a_t] = q;\<close>\<close>

definition update :: "('t, 'u) policy \<Rightarrow> 't state \<Rightarrow> 'u action \<Rightarrow> real \<Rightarrow> ('t, 'u) policy" where
  "update p s_t a_t q =
     AList.update (trait s_t) (AList.update a_t q (find_or [] p (trait s_t))) p"

text \<open>\<^verbatim>\<open>policy::value\<close> (lines 611--618): \<^verbatim>\<open>return __policies__[s_t][a_t];\<close>\<close>

definition value_of :: "('t, 'u) policy \<Rightarrow> 't state \<Rightarrow> 'u action \<Rightarrow> real \<times> ('t, 'u) policy" where
  "value_of p s_t a_t =
     (let am = find_or [] p (trait s_t)
      in (find_or 0 am a_t, AList.update (trait s_t) (subscript am a_t 0) p))"

text \<open>
  \<^verbatim>\<open>policy::best_value\<close> (lines 620--629) and \<^verbatim>\<open>policy::best_action\<close> (lines 631--643):
  the maximum search over \<^verbatim>\<open>__policies__[s_t]\<close>, then the value or a copy of the action of the
  entry found, and \<^verbatim>\<open>0.\<close> or \<^verbatim>\<open>nullptr\<close> when the search returns \<^verbatim>\<open>end()\<close>.
\<close>

definition best_value :: "('t, 'u) policy \<Rightarrow> 't state \<Rightarrow> real \<times> ('t, 'u) policy" where
  "best_value p s_t =
     (case max_element (find_or [] p (trait s_t)) of
        Some it \<Rightarrow> (snd it, subscript p (trait s_t) [])
      | None \<Rightarrow> (0, subscript p (trait s_t) []))"

definition best_action :: "('t, 'u) policy \<Rightarrow> 't state \<Rightarrow> 'u action option \<times> ('t, 'u) policy" where
  "best_action p s_t =
     (case max_element (find_or [] p (trait s_t)) of
        Some it \<Rightarrow> (Some (fst it), subscript p (trait s_t) [])
      | None \<Rightarrow> (None, subscript p (trait s_t) []))"

subsection \<open>Deterministic Q-learning\<close>

record q_learning =
  alpha :: real
  gamma :: real

text \<open>
  \<^verbatim>\<open>q_learning::q_value\<close> (lines 657--679). The bound check stands for the undefined \<^verbatim>\<open>episode[index]\<close>;
  past it the episode is not empty, so \<^verbatim>\<open>episode.size() - 1\<close> does not wrap. The index is an
  \<^verbatim>\<open>unsigned int\<close> in the code, where \<^verbatim>\<open>index + 1\<close> wraps at \<open>2 ^ 32\<close>: the function is the
  code for \<open>length episode < 2 ^ 32\<close>.
\<close>

definition q_learning_q_value ::
  "q_learning \<Rightarrow> ('t, 'u) link list \<Rightarrow> nat \<Rightarrow> ('t, 'u) policy
     \<Rightarrow> error + (('t, 'u) triplet \<times> ('t, 'u) policy)" where
  "q_learning_q_value ql episode index policy_map =
     (if length episode \<le> index then Inl OutOfRange
      else
        let step = episode ! index in
        if index < length episode - 1 then
          let (q, pm1) = value_of policy_map (state step) (action step);
              next = episode ! (index + 1);
              (q_next, pm2) = best_value pm1 (state next);
              r = reward (state step)
          in Inr ((state step, action step,
                   q + alpha ql * (r + (q_learning.gamma ql * q_next) - q)), pm2)
        else Inr ((state step, action step, reward (state step)), policy_map))"

text \<open>
  The loop of \<^verbatim>\<open>q_learning::operator()\<close> (lines 681--696), from counter \<open>i\<close> on. The counter
  is an \<^verbatim>\<open>unsigned int\<close> in the code: the function is the loop for \<open>length episode < 2 ^ 32\<close>.
\<close>

function q_learning_loop ::
  "q_learning \<Rightarrow> ('t, 'u) link list \<Rightarrow> nat \<Rightarrow> ('t, 'u) policy \<Rightarrow> error + ('t, 'u) policy" where
  "q_learning_loop ql episode i policy_map =
     (if i < length episode then
        (case q_learning_q_value ql episode i policy_map of
           Inl e \<Rightarrow> Inl e
         | Inr (t, pm) \<Rightarrow>
             q_learning_loop ql episode (i + 1) (update pm (fst t) (fst (snd t)) (snd (snd t))))
      else Inr policy_map)"
  by pat_completeness auto
termination
  by (relation "measure (\<lambda>(ql, episode, i, policy_map). length episode - i)") auto

text \<open>\<^verbatim>\<open>q_learning::operator()\<close>: the loop from 0.\<close>

definition q_learning_apply ::
  "q_learning \<Rightarrow> ('t, 'u) link list \<Rightarrow> ('t, 'u) policy \<Rightarrow> error + ('t, 'u) policy" where
  "q_learning_apply ql episode policy_map = q_learning_loop ql episode 0 policy_map"

subsection \<open>Probabilistic Q-learning\<close>

record ('t, 'u) q_probabilistic =
  gamma :: real
  memory :: "('t, 'u) observation"

text \<open>\<open>successors m s a\<close> is the frequency map that \<^verbatim>\<open>__memory__[s][a]\<close> refers to.\<close>

definition successors :: "('t, 'u) observation \<Rightarrow> 't \<Rightarrow> 'u action \<Rightarrow> 't frequency" where
  "successors m s a = find_or [] (find_or [] m s) a"

text \<open>\<open>frequency m s a n\<close> is the counter that \<^verbatim>\<open>__memory__[s][a][n]\<close> refers to.\<close>

definition frequency :: "('t, 'u) observation \<Rightarrow> 't \<Rightarrow> 'u action \<Rightarrow> 't \<Rightarrow> 64 word" where
  "frequency m s a n = find_or 0 (successors m s a) n"

text \<open>The memory after \<^verbatim>\<open>__memory__[s][a][n]\<close> has been evaluated: absent keys are inserted.\<close>

definition touch :: "('t, 'u) observation \<Rightarrow> 't \<Rightarrow> 'u action \<Rightarrow> 't \<Rightarrow> ('t, 'u) observation" where
  "touch m s a n =
     (let tm = find_or [] m s
      in AList.update s (AList.update a (subscript (find_or [] tm a) n 0) tm) m)"

text \<open>The memory after \<^verbatim>\<open>__memory__[s][a][n]++\<close>.\<close>

definition observe :: "('t, 'u) observation \<Rightarrow> 't \<Rightarrow> 'u action \<Rightarrow> 't \<Rightarrow> ('t, 'u) observation" where
  "observe m s a n =
     (let tm = find_or [] m s; fm = find_or [] tm a
      in AList.update s (AList.update a (AList.update n (find_or 0 fm n + 1) fm) tm) m)"

text \<open>
  \<^verbatim>\<open>q_probabilistic::q_value\<close> (lines 698--726). Both operands of the division are \<^verbatim>\<open>size_t\<close>: the quotient
  is the integer quotient, converted to \<^verbatim>\<open>value_type\<close> afterwards. C++ leaves open which
  operand is evaluated first. The numerator inserts \<^verbatim>\<open>next.state\<close> with count 0 when it is
  absent; the quotient is then 0 whichever operand comes first, unless the frequency map was
  empty. The model reads the size before that insertion, the order in which an empty frequency
  map is a division by zero. As in \<^verbatim>\<open>q_learning::q_value\<close>, the index is an \<^verbatim>\<open>unsigned int\<close>
  in the code and the function is the code for \<open>length episode < 2 ^ 32\<close>.
\<close>

definition q_probabilistic_q_value ::
  "('t, 'u) q_probabilistic \<Rightarrow> ('t, 'u) link list \<Rightarrow> nat \<Rightarrow> ('t, 'u) policy
     \<Rightarrow> error + (('t, 'u) triplet \<times> ('t, 'u) policy \<times> ('t, 'u) q_probabilistic)" where
  "q_probabilistic_q_value qp episode index policy_map =
     (if length episode \<le> index then Inl OutOfRange
      else
        let step = episode ! index in
        if index < length episode - 1 then
          let (q, pm1) = value_of policy_map (state step) (action step);
              next = episode ! (index + 1);
              (q_next, pm2) = best_value pm1 (state next);
              r = reward (state step);
              fm = successors (memory qp) (trait (state step)) (action step);
              qp' = qp\<lparr>memory :=
                      touch (memory qp) (trait (state step)) (action step) (trait (state next))\<rparr>
          in if length fm = 0 then Inl DivisionByZero
             else
               let prob = real (unat (find_or 0 fm (trait (state next))) div length fm);
                   r_expected = prob * r
               in Inr ((state step, action step,
                        r_expected + (q_probabilistic.gamma qp * (q_next * prob))), pm2, qp')
        else Inr ((state step, action step, reward (state step)), policy_map, qp))"

text \<open>
  The first loop of \<^verbatim>\<open>q_probabilistic::operator()\<close> (lines 736--744, the accounting), from
  counter \<open>i\<close> on. The counter is an \<^verbatim>\<open>unsigned int\<close> in the code: the function is the loop
  for \<open>length episode < 2 ^ 32\<close>.
\<close>

function accounting ::
  "('t, 'u) link list \<Rightarrow> nat \<Rightarrow> ('t, 'u) observation \<Rightarrow> ('t, 'u) observation" where
  "accounting episode i m =
     (if i < length episode then
        (if i = length episode - 1 then accounting episode (i + 1) m
         else
           let s_t = state (episode ! i);
               a_t = action (episode ! i);
               s_n = state (episode ! (i + 1))
           in accounting episode (i + 1) (observe m (trait s_t) a_t (trait s_n)))
      else m)"
  by pat_completeness auto
termination
  by (relation "measure (\<lambda>(episode, i, m). length episode - i)") auto

text \<open>
  The second loop of \<^verbatim>\<open>q_probabilistic::operator()\<close> (lines 745--750, the updates), from
  counter \<open>i\<close> on. The counter is an \<^verbatim>\<open>unsigned int\<close> in the code: the function is the loop
  for \<open>length episode < 2 ^ 32\<close>.
\<close>

function q_probabilistic_loop ::
  "('t, 'u) q_probabilistic \<Rightarrow> ('t, 'u) link list \<Rightarrow> nat \<Rightarrow> ('t, 'u) policy
     \<Rightarrow> error + (('t, 'u) policy \<times> ('t, 'u) q_probabilistic)" where
  "q_probabilistic_loop qp episode i policy_map =
     (if i < length episode then
        (case q_probabilistic_q_value qp episode i policy_map of
           Inl e \<Rightarrow> Inl e
         | Inr (t, pm, qp') \<Rightarrow>
             q_probabilistic_loop qp' episode (i + 1)
               (update pm (fst t) (fst (snd t)) (snd (snd t))))
      else Inr (policy_map, qp))"
  by pat_completeness auto
termination
  by (relation "measure (\<lambda>(qp, episode, i, policy_map). length episode - i)") auto

text \<open>
  \<^verbatim>\<open>q_probabilistic::operator()\<close> (lines 728--751): the accounting loop from 0 on the member
  \<^verbatim>\<open>__memory__\<close>, then the update loop from 0. The instance is returned with its new memory.
\<close>

definition q_probabilistic_apply ::
  "('t, 'u) q_probabilistic \<Rightarrow> ('t, 'u) link list \<Rightarrow> ('t, 'u) policy
     \<Rightarrow> error + (('t, 'u) policy \<times> ('t, 'u) q_probabilistic)" where
  "q_probabilistic_apply qp episode policy_map =
     q_probabilistic_loop (qp\<lparr>memory := accounting episode 0 (memory qp)\<rparr>) episode 0 policy_map"

subsection \<open>Observations used in the statements\<close>

text \<open>
  \<open>entry p t a\<close> is the value stored in the table for the state with trait \<open>t\<close> and the
  action \<open>a\<close>, or \<open>None\<close> when the table holds no such entry. It reads without inserting.
\<close>

definition entry :: "('t, 'u) policy \<Rightarrow> 't \<Rightarrow> 'u action \<Rightarrow> real option" where
  "entry p t a = (case map_of p t of None \<Rightarrow> None | Some am \<Rightarrow> map_of am a)"

text \<open>
  \<open>recorded m s a n\<close>: the memory holds a counter for the transition from \<open>(s, a)\<close> to \<open>n\<close>.
\<close>

definition recorded :: "('t, 'u) observation \<Rightarrow> 't \<Rightarrow> 'u action \<Rightarrow> 't \<Rightarrow> bool" where
  "recorded m s a n =
     (case map_of m s of
        None \<Rightarrow> False
      | Some tm \<Rightarrow> (case map_of tm a of None \<Rightarrow> False | Some fm \<Rightarrow> map_of fm n \<noteq> None))"

text \<open>\<open>covered m episode\<close>: every transition of the episode is recorded in the memory.\<close>

definition covered :: "('t, 'u) observation \<Rightarrow> ('t, 'u) link list \<Rightarrow> bool" where
  "covered m episode \<longleftrightarrow>
     (\<forall>j. Suc j < length episode \<longrightarrow>
        recorded m (trait (state (episode ! j))) (action (episode ! j))
          (trait (state (episode ! Suc j))))"

text \<open>
  The transitions of an episode, one for each index but the last, in order; a transition that
  the episode takes several times is listed several times.
\<close>

definition transition_at :: "('t, 'u) link list \<Rightarrow> nat \<Rightarrow> 't \<times> 'u action \<times> 't" where
  "transition_at episode i =
     (trait (state (episode ! i)), action (episode ! i), trait (state (episode ! (i + 1))))"

definition transitions :: "('t, 'u) link list \<Rightarrow> ('t \<times> 'u action \<times> 't) list" where
  "transitions episode = map (transition_at episode) [0..<length episode - 1]"

text \<open>
  \<open>feed k qp episode p\<close> calls \<^verbatim>\<open>q_probabilistic::operator()\<close> \<open>k\<close> times in a row with the
  same episode, on the same instance and the same table.
\<close>

fun feed ::
  "nat \<Rightarrow> ('t, 'u) q_probabilistic \<Rightarrow> ('t, 'u) link list \<Rightarrow> ('t, 'u) policy
     \<Rightarrow> error + (('t, 'u) policy \<times> ('t, 'u) q_probabilistic)" where
  "feed 0 qp episode p = Inr (p, qp)"
| "feed (Suc k) qp episode p =
     (case q_probabilistic_apply qp episode p of
        Inl e \<Rightarrow> Inl e
      | Inr (p', qp') \<Rightarrow> feed k qp' episode p')"

text \<open>
  The transition probability as the specification words it: the real quotient of the
  frequency count by the number of successor states recorded for the pair. It is compared
  below with the quotient that \<^verbatim>\<open>q_probabilistic::q_value\<close> computes.
\<close>

definition spec_prob :: "('t, 'u) observation \<Rightarrow> 't \<Rightarrow> 'u action \<Rightarrow> 't \<Rightarrow> real" where
  "spec_prob m s a n = real (unat (frequency m s a n)) / real (length (successors m s a))"

section \<open>Properties\<close>

subsection \<open>Association lists\<close>

lemma find_or_update:
  "find_or d (AList.update k v m) k' = (if k' = k then v else find_or d m k')"
  by (simp add: find_or_def update_conv')

lemma map_of_subscript:
  "map_of (subscript m k d) = (map_of m)(k \<mapsto> find_or d m k)"
  by (auto simp: subscript_def find_or_def fun_eq_iff map_add_def split: option.splits)

lemma find_or_subscript:
  "find_or d (subscript m k d) k' = find_or d m k'"
  by (simp add: find_or_def map_of_subscript)

lemma find_or_subscript_neq:
  "k' \<noteq> k \<Longrightarrow> find_or d' (subscript m k d) k' = find_or d' m k'"
  by (simp add: find_or_def map_of_subscript)

lemma keys_subscript:
  "fst ` set (subscript m k d) = insert k (fst ` set m)"
proof (cases "map_of m k")
  case None
  then show ?thesis by (simp add: subscript_def)
next
  case (Some v)
  then have "k \<in> fst ` set m" by (metis map_of_eq_None_iff option.distinct(1))
  with Some show ?thesis by (auto simp: subscript_def)
qed

subsection \<open>The maximum search\<close>

lemma max_fold_mem:
  "fold (\<lambda>y largest. if snd largest < snd y then y else largest) xs x \<in> set (x # xs)"
  by (induction xs arbitrary: x) auto

lemma max_fold_ge:
  "\<forall>y \<in> set (x # xs).
     snd y \<le> snd (fold (\<lambda>y largest. if snd largest < (snd y :: real) then y else largest) xs x)"
proof (induction xs arbitrary: x)
  case Nil
  then show ?case by simp
next
  case (Cons z zs)
  show ?case
  proof (cases "snd x < snd z")
    case True
    with Cons.IH[of z] show ?thesis by auto
  next
    case False
    with Cons.IH[of x] show ?thesis by auto
  qed
qed

lemma max_element_Some:
  assumes "am \<noteq> []"
  shows "\<exists>it. max_element am = Some it \<and> it \<in> set am \<and> snd it = Max (snd ` set am)"
proof -
  from assms obtain x xs where am: "am = x # xs" by (cases am) auto
  let ?it = "fold (\<lambda>y largest. if snd largest < snd y then y else largest) xs x"
  have m: "?it \<in> set am" unfolding am by (rule max_fold_mem)
  have "snd ?it = Max (snd ` set am)"
  proof (rule sym, rule Max_eqI)
    show "finite (snd ` set am)" by simp
    show "\<And>v. v \<in> snd ` set am \<Longrightarrow> v \<le> snd ?it"
      unfolding am using max_fold_ge[of x xs] by auto
    show "snd ?it \<in> snd ` set am" using m by auto
  qed
  with m show ?thesis by (simp add: am)
qed

subsection \<open>Reading and writing the table\<close>

lemma fst_value_of: "fst (value_of p s a) = find_or 0 (find_or [] p (trait s)) a"
  by (simp add: value_of_def Let_def)

lemma entry_update:
  "entry (update p s a v) t' a' = (if t' = trait s \<and> a' = a then Some v else entry p t' a')"
  by (auto simp: entry_def update_def update_conv' find_or_def split: option.splits)

lemma find_or_entry: "find_or 0 (find_or [] p t) a = (case entry p t a of None \<Rightarrow> 0 | Some v \<Rightarrow> v)"
  by (simp add: entry_def find_or_def split: option.splits)

lemma actions_update:
  "find_or [] (update p s a v) t =
     (if t = trait s then AList.update a v (find_or [] p t) else find_or [] p t)"
  by (simp add: update_def find_or_update)

lemma actions_value_of:
  "find_or [] (snd (value_of p s a)) t =
     (if t = trait s then subscript (find_or [] p t) a 0 else find_or [] p t)"
  by (simp add: value_of_def Let_def find_or_update)

lemma actions_best_value: "find_or [] (snd (best_value p s)) t = find_or [] p t"
  by (simp add: best_value_def find_or_subscript split: option.splits)

lemma fst_best_value_cong:
  "find_or [] p' (trait s) = find_or [] p (trait s) \<Longrightarrow> fst (best_value p' s) = fst (best_value p s)"
  by (simp add: best_value_def split: option.splits)

lemma value_of_update_same: "fst (value_of (update p s a v) s a) = v"
  by (simp add: fst_value_of actions_update find_or_update)

lemma value_of_update_other:
  "trait s' \<noteq> trait s \<or> a' \<noteq> a \<Longrightarrow> fst (value_of (update p s a v) s' a') = fst (value_of p s' a')"
  by (auto simp: fst_value_of actions_update find_or_update)

subsection \<open>The loop of the deterministic algorithm\<close>

lemma q_learning_q_value_last:
  "Suc i = length ep \<Longrightarrow>
   q_learning_q_value ql ep i p = Inr ((state (ep ! i), action (ep ! i), reward (state (ep ! i))), p)"
  by (auto simp: q_learning_q_value_def Let_def less_diff_conv)

lemma q_learning_q_value_inner:
  "Suc i < length ep \<Longrightarrow>
   q_learning_q_value ql ep i p =
     Inr ((state (ep ! i), action (ep ! i),
           fst (value_of p (state (ep ! i)) (action (ep ! i))) +
           alpha ql * (reward (state (ep ! i)) +
             q_learning.gamma ql *
               fst (best_value (snd (value_of p (state (ep ! i)) (action (ep ! i)))) (state (ep ! Suc i))) -
             fst (value_of p (state (ep ! i)) (action (ep ! i))))),
          snd (best_value (snd (value_of p (state (ep ! i)) (action (ep ! i)))) (state (ep ! Suc i))))"
  by (simp add: q_learning_q_value_def Let_def split_beta less_diff_conv)

declare q_learning_loop.simps [simp del]

lemma q_learning_loop_end: "length ep \<le> i \<Longrightarrow> q_learning_loop ql ep i p = Inr p"
  by (simp add: q_learning_loop.simps)

lemma q_learning_loop_terminal:
  "i < length ep \<Longrightarrow>
   \<exists>p'. q_learning_loop ql ep i p = Inr p' \<and>
        fst (value_of p' (state (last ep)) (action (last ep))) = reward (state (last ep))"
proof (induction ql ep i p rule: q_learning_loop.induct)
  case (1 ql ep i p)
  show ?case
  proof (cases "Suc i = length ep")
    case True
    then have l: "last ep = ep ! i" by (metis "1.prems" diff_Suc_1 last_conv_nth list.size(3) not_less_zero)
    from True show ?thesis
      by (simp add: q_learning_loop.simps[of ql ep i] q_learning_loop_end
            q_learning_q_value_last l value_of_update_same)
  next
    case False
    with "1.prems" have lt: "Suc i < length ep" by simp
    from "1.IH"[OF "1.prems" q_learning_q_value_inner[OF lt]] lt
    show ?thesis
      by (simp add: q_learning_loop.simps[of ql ep i] q_learning_q_value_inner[OF lt])
  qed
qed

subsection \<open>The observation memory\<close>

lemma successors_observe:
  "successors (observe m s a n) s' a' =
     (if s' = s \<and> a' = a
      then AList.update n (find_or 0 (successors m s a) n + 1) (successors m s a)
      else successors m s' a')"
  by (simp add: successors_def observe_def Let_def find_or_update)

lemma frequency_observe:
  "frequency (observe m s a n) s' a' n' =
     (if s' = s \<and> a' = a \<and> n' = n then frequency m s a n + 1 else frequency m s' a' n')"
  by (simp add: frequency_def successors_observe find_or_update)

lemma recorded_observe:
  "recorded (observe m s a n) s' a' n' \<longleftrightarrow> (s' = s \<and> a' = a \<and> n' = n) \<or> recorded m s' a' n'"
  by (auto simp: recorded_def observe_def Let_def update_conv' find_or_def split: option.splits)

lemma touch_recorded:
  assumes "recorded m s a n"
  shows "touch m s a n = m"
proof -
  from assms obtain tm fm c where
    tm: "map_of m s = Some tm" and fm: "map_of tm a = Some fm" and c: "map_of fm n = Some c"
    by (auto simp: recorded_def split: option.splits)
  have "subscript fm n 0 = fm" using c by (simp add: subscript_def)
  then show ?thesis using tm fm
    by (simp add: touch_def Let_def find_or_def update_triv)
qed

lemma recorded_successors:
  assumes "recorded m s a n"
  shows "successors m s a \<noteq> []"
  using assms by (auto simp: recorded_def successors_def find_or_def split: option.splits)

subsection \<open>The accounting loop\<close>

declare accounting.simps [simp del]

lemma accounting_end:
  assumes "length ep \<le> Suc i"
  shows "accounting ep i m = m"
proof (cases "i < length ep")
  case True
  with assms have eq: "length ep - 1 = i" by arith
  have "accounting ep i m = accounting ep (i + 1) m"
    using True eq by (subst accounting.simps) simp
  also have "\<dots> = m"
    using assms by (subst accounting.simps) simp
  finally show ?thesis .
next
  case False
  then show ?thesis by (subst accounting.simps) simp
qed

lemma accounting_step:
  assumes "Suc i < length ep"
  shows "accounting ep i m =
     accounting ep (Suc i)
       (observe m (trait (state (ep ! i))) (action (ep ! i)) (trait (state (ep ! Suc i))))"
proof -
  from assms have ne: "i \<noteq> length ep - 1" and lt: "i < length ep" by arith+
  show ?thesis using ne lt by (subst accounting.simps) (simp add: Let_def)
qed

lemma accounting_cases_induct [consumes 0, case_names stop step]:
  assumes stop: "\<And>i m. length ep \<le> Suc i \<Longrightarrow> P i m"
    and step: "\<And>i m. Suc i < length ep \<Longrightarrow>
        P (Suc i) (observe m (trait (state (ep ! i))) (action (ep ! i)) (trait (state (ep ! Suc i))))
        \<Longrightarrow> P i m"
  shows "P i m"
proof -
  have "\<forall>i m. length ep - i = k \<longrightarrow> P i m" for k
  proof (induction k)
    case 0
    show ?case
    proof (intro allI impI)
      fix i m
      assume "length ep - i = 0"
      then have "length ep \<le> Suc i" by simp
      then show "P i m" by (rule stop)
    qed
  next
    case (Suc k)
    show ?case
    proof (intro allI impI)
      fix i m
      assume len: "length ep - i = Suc k"
      show "P i m"
      proof (cases "Suc i < length ep")
        case True
        from len have "length ep - Suc i = k" by simp
        with Suc.IH have "P (Suc i)
            (observe m (trait (state (ep ! i))) (action (ep ! i)) (trait (state (ep ! Suc i))))"
          by blast
        from step[OF True this] show ?thesis .
      next
        case False
        then have "length ep \<le> Suc i" by simp
        then show ?thesis by (rule stop)
      qed
    qed
  qed
  then show ?thesis by simp
qed

lemma accounting_recorded_mono:
  "recorded m s a n \<Longrightarrow> recorded (accounting ep i m) s a n"
proof (induction i m rule: accounting_cases_induct[of ep])
  case (stop i m)
  then show ?case by (simp add: accounting_end)
next
  case (step i m)
  then show ?case by (simp add: accounting_step[OF step.hyps(1)] recorded_observe)
qed

lemma accounting_recorded:
  "i \<le> j \<Longrightarrow> Suc j < length ep \<Longrightarrow>
   recorded (accounting ep i m) (trait (state (ep ! j))) (action (ep ! j)) (trait (state (ep ! Suc j)))"
proof (induction i m rule: accounting_cases_induct[of ep])
  case (stop i m)
  then show ?case by simp
next
  case (step i m)
  let ?m' = "observe m (trait (state (ep ! i))) (action (ep ! i)) (trait (state (ep ! Suc i)))"
  have unfold: "accounting ep i m = accounting ep (Suc i) ?m'"
    by (rule accounting_step[OF step.hyps])
  show ?case
  proof (cases "i = j")
    case True
    have "recorded ?m' (trait (state (ep ! i))) (action (ep ! i)) (trait (state (ep ! Suc i)))"
      by (simp add: recorded_observe)
    then have "recorded (accounting ep (Suc i) ?m')
        (trait (state (ep ! i))) (action (ep ! i)) (trait (state (ep ! Suc i)))"
      by (rule accounting_recorded_mono)
    then have "recorded (accounting ep i m)
        (trait (state (ep ! i))) (action (ep ! i)) (trait (state (ep ! Suc i)))"
      by (simp only: unfold)
    then show ?thesis using True by simp
  next
    case False
    with step.prems have "Suc i \<le> j" by simp
    from step.IH[OF this step.prems(2)] show ?thesis unfolding unfold .
  qed
qed

lemma count_list_transitions_step:
  assumes "Suc i < length ep"
  shows "count_list (map (transition_at ep) [i..<length ep - 1]) k =
         (if transition_at ep i = k then 1 else 0) +
         count_list (map (transition_at ep) [Suc i..<length ep - 1]) k"
proof -
  from assms have "[i..<length ep - 1] = i # [Suc i..<length ep - 1]"
    by (intro upt_conv_Cons) arith
  then show ?thesis by simp
qed

lemma accounting_frequency:
  "frequency (accounting ep i m) s a n =
     frequency m s a n + of_nat (count_list (map (transition_at ep) [i..<length ep - 1]) (s, a, n))"
proof (induction i m rule: accounting_cases_induct[of ep])
  case (stop i m)
  then show ?case by (simp add: accounting_end)
next
  case (step i m)
  let ?m' = "observe m (trait (state (ep ! i))) (action (ep ! i)) (trait (state (ep ! Suc i)))"
  let ?rest = "count_list (map (transition_at ep) [Suc i..<length ep - 1]) (s, a, n)"
  let ?here = "if transition_at ep i = (s, a, n) then 1 else 0 :: nat"
  have obs: "frequency ?m' s a n = frequency m s a n + of_nat ?here"
    by (auto simp: frequency_observe transition_at_def)
  have "frequency (accounting ep i m) s a n = frequency (accounting ep (Suc i) ?m') s a n"
    by (simp only: accounting_step[OF step.hyps])
  also have "\<dots> = frequency ?m' s a n + of_nat ?rest"
    by (rule step.IH)
  also have "\<dots> = frequency m s a n + of_nat (?here + ?rest)"
    by (simp only: obs of_nat_add add.assoc)
  also have "?here + ?rest = count_list (map (transition_at ep) [i..<length ep - 1]) (s, a, n)"
    by (rule count_list_transitions_step[OF step.hyps, symmetric])
  finally show ?case .
qed

lemma covered_accounting: "covered (accounting ep 0 m) ep"
  by (simp add: covered_def accounting_recorded)

subsection \<open>The update loop of the probabilistic algorithm\<close>

lemma q_probabilistic_q_value_last:
  "Suc i = length ep \<Longrightarrow>
   q_probabilistic_q_value qp ep i p =
     Inr ((state (ep ! i), action (ep ! i), reward (state (ep ! i))), p, qp)"
  by (auto simp: q_probabilistic_q_value_def Let_def less_diff_conv)

lemma q_probabilistic_q_value_inner:
  assumes "Suc i < length ep"
    and "recorded (memory qp) (trait (state (ep ! i))) (action (ep ! i)) (trait (state (ep ! Suc i)))"
  shows "q_probabilistic_q_value qp ep i p =
     Inr ((state (ep ! i), action (ep ! i),
           real (unat (frequency (memory qp) (trait (state (ep ! i))) (action (ep ! i))
                         (trait (state (ep ! Suc i)))) div
                 length (successors (memory qp) (trait (state (ep ! i))) (action (ep ! i)))) *
             reward (state (ep ! i)) +
           q_probabilistic.gamma qp *
             (fst (best_value (snd (value_of p (state (ep ! i)) (action (ep ! i)))) (state (ep ! Suc i))) *
              real (unat (frequency (memory qp) (trait (state (ep ! i))) (action (ep ! i))
                            (trait (state (ep ! Suc i)))) div
                    length (successors (memory qp) (trait (state (ep ! i))) (action (ep ! i)))))),
          snd (best_value (snd (value_of p (state (ep ! i)) (action (ep ! i)))) (state (ep ! Suc i))),
          qp)"
  using assms(1) recorded_successors[OF assms(2)] touch_recorded[OF assms(2)]
  by (simp add: q_probabilistic_q_value_def Let_def split_beta less_diff_conv frequency_def)

declare q_probabilistic_loop.simps [simp del]

lemma q_probabilistic_loop_end:
  "length ep \<le> i \<Longrightarrow> q_probabilistic_loop qp ep i p = Inr (p, qp)"
  by (simp add: q_probabilistic_loop.simps)

lemma q_probabilistic_loop_covered:
  assumes cov: "covered (memory qp) ep"
  shows "\<exists>p'. q_probabilistic_loop qp ep i p = Inr (p', qp) \<and>
          (i < length ep \<longrightarrow>
             fst (value_of p' (state (last ep)) (action (last ep))) = reward (state (last ep)))"
proof -
  have "\<forall>i p. length ep - i = k \<longrightarrow>
          (\<exists>p'. q_probabilistic_loop qp ep i p = Inr (p', qp) \<and>
            (i < length ep \<longrightarrow>
               fst (value_of p' (state (last ep)) (action (last ep))) = reward (state (last ep))))"
    for k
  proof (induction k)
    case 0
    then show ?case by (simp add: q_probabilistic_loop_end)
  next
    case (Suc k)
    show ?case
    proof (intro allI impI)
      fix i p
      assume len: "length ep - i = Suc k"
      then have lt: "i < length ep" by simp
      show "\<exists>p'. q_probabilistic_loop qp ep i p = Inr (p', qp) \<and>
            (i < length ep \<longrightarrow>
               fst (value_of p' (state (last ep)) (action (last ep))) = reward (state (last ep)))"
      proof (cases "Suc i = length ep")
        case True
        with lt have l: "last ep = ep ! i"
          by (metis diff_Suc_1 last_conv_nth list.size(3) not_less_zero)
        from True show ?thesis
          by (simp add: q_probabilistic_loop.simps[of qp ep i] q_probabilistic_loop_end
                q_probabilistic_q_value_last l value_of_update_same)
      next
        case False
        with lt have lt2: "Suc i < length ep" by simp
        from cov lt2 have r: "recorded (memory qp) (trait (state (ep ! i))) (action (ep ! i))
            (trait (state (ep ! Suc i)))"
          by (simp add: covered_def)
        from q_probabilistic_q_value_inner[OF lt2 r, of p] obtain t pm where
          q: "q_probabilistic_q_value qp ep i p = Inr (t, pm, qp)" by blast
        from len have "length ep - Suc i = k" by simp
        with Suc.IH lt2 obtain p' where
          "q_probabilistic_loop qp ep (Suc i) (update pm (fst t) (fst (snd t)) (snd (snd t))) =
             Inr (p', qp)"
          "fst (value_of p' (state (last ep)) (action (last ep))) = reward (state (last ep))"
          by blast
        with lt show ?thesis
          by (simp add: q_probabilistic_loop.simps[of qp ep i] q)
      qed
    qed
  qed
  then show ?thesis by simp
qed

lemma q_probabilistic_apply_result:
  "\<exists>p'. q_probabilistic_apply qp ep p = Inr (p', qp\<lparr>memory := accounting ep 0 (memory qp)\<rparr>) \<and>
        (ep \<noteq> [] \<longrightarrow>
           fst (value_of p' (state (last ep)) (action (last ep))) = reward (state (last ep)))"
  using q_probabilistic_loop_covered[of "qp\<lparr>memory := accounting ep 0 (memory qp)\<rparr>" ep 0 p]
  by (simp add: q_probabilistic_apply_def covered_accounting)

lemma feed_frequency:
  "\<exists>p' qp'. feed N qp ep p = Inr (p', qp') \<and>
     frequency (memory qp') s a n =
       frequency (memory qp) s a n + of_nat (N * count_list (transitions ep) (s, a, n))"
proof (induction N arbitrary: qp p)
  case 0
  then show ?case by simp
next
  case (Suc N)
  from q_probabilistic_apply_result[of qp ep p] obtain p1 where
    a: "q_probabilistic_apply qp ep p = Inr (p1, qp\<lparr>memory := accounting ep 0 (memory qp)\<rparr>)"
    by blast
  from Suc.IH[of "qp\<lparr>memory := accounting ep 0 (memory qp)\<rparr>" p1] a show ?case
    by (auto simp: accounting_frequency transitions_def algebra_simps)
qed

subsection \<open>Counters\<close>

lemma unat_add_of_nat:
  "unat (w :: 64 word) + k < 2 ^ 64 \<Longrightarrow> unat (w + of_nat k) = unat w + k"
  by (simp add: unat_word_ariths unat_of_nat)

section \<open>The claims\<close>

subsection \<open>The policy table\<close>

text \<open>
  Claim C6 (default zero). On a freshly constructed table, which holds no entry, and for any
  state and action: \<^verbatim>\<open>value\<close> returns 0, \<^verbatim>\<open>best_value\<close> returns 0 and
  \<^verbatim>\<open>best_action\<close> returns the null pointer.
\<close>

theorem default_zero:
  "fst (value_of [] s a) = 0 \<and> fst (best_value [] s) = 0 \<and> fst (best_action [] s) = None"
  by (simp add: value_of_def best_value_def best_action_def find_or_def)

text \<open>
  The three reads of C6 are each taken on the empty table. They insert what they read: once
  \<^verbatim>\<open>value\<close> has been called for \<open>(s, a)\<close> the table holds the entry \<open>a: 0\<close> for \<open>s\<close>, and
  \<^verbatim>\<open>best_action\<close> then returns \<open>a\<close>, while \<^verbatim>\<open>best_value\<close> still returns 0.
\<close>

lemma best_action_after_value:
  "fst (best_action (snd (value_of [] s a)) s) = Some a \<and>
   fst (best_value (snd (value_of [] s a)) s) = 0"
  by (simp add: value_of_def best_value_def best_action_def find_or_def subscript_def)

text \<open>
  Claim C7 (best value with ties). For a state whose action map \<open>am\<close> is not empty,
  \<^verbatim>\<open>best_value\<close> returns the maximum of the stored values and \<^verbatim>\<open>best_action\<close> returns
  an action whose stored value is that maximum. The statement holds for every order in which
  the container lists its entries; which of several maximisers is returned is left open.
\<close>

theorem best_value_correct:
  assumes "find_or [] p (trait s) = am" and "am \<noteq> []" and "distinct (map fst am)"
  shows "fst (best_value p s) = Max (snd ` set am) \<and>
         (\<exists>a. fst (best_action p s) = Some a \<and> map_of am a = Some (Max (snd ` set am)) \<and>
              fst (value_of p s a) = Max (snd ` set am))"
proof -
  from max_element_Some[OF assms(2)] obtain it where
    it: "max_element am = Some it" "it \<in> set am" "snd it = Max (snd ` set am)" by blast
  from it(2) assms(3) have "map_of am (fst it) = Some (snd it)"
    using map_of_is_SomeI[of am "fst it" "snd it"] by simp
  with it assms(1) show ?thesis
    by (simp add: best_value_def best_action_def fst_value_of find_or_def)
qed

text \<open>
  Witness for C7: the actions \<open>{a1: 3.0, a2: 7.5, a3: 7.5}\<close> of the specification.
\<close>

theorem best_value_correct_witness:
  "find_or [] [(0::nat, [(Action (1::nat), 3::real), (Action 2, 15/2), (Action 3, 15/2)])]
     (trait \<lparr>reward = 0, trait = 0::nat\<rparr>) = [(Action 1, 3), (Action 2, 15/2), (Action 3, 15/2)] \<and>
   [(Action (1::nat), 3::real), (Action 2, 15/2), (Action 3, 15/2)] \<noteq> [] \<and>
   distinct (map fst [(Action (1::nat), 3::real), (Action 2, 15/2), (Action 3, 15/2)]) \<and>
   fst (best_value [(0::nat, [(Action (1::nat), 3), (Action 2, 15/2), (Action 3, 15/2)])]
     \<lparr>reward = 0, trait = 0\<rparr>) = 15/2 \<and>
   fst (best_action [(0::nat, [(Action (1::nat), 3), (Action 2, 15/2), (Action 3, 15/2)])]
     \<lparr>reward = 0, trait = 0\<rparr>) \<in> {Some (Action 2), Some (Action 3)}"
proof -
  let ?am = "[(Action (1::nat), 3::real), (Action 2, 15/2), (Action 3, 15/2)]"
  let ?p = "[(0::nat, ?am)]"
  let ?s = "\<lparr>reward = 0, trait = 0::nat\<rparr>"
  have h1: "find_or [] ?p (trait ?s) = ?am" by (simp add: find_or_def)
  have h2: "?am \<noteq> []" by simp
  have h3: "distinct (map fst ?am)" by simp
  have m: "Max (snd ` set ?am) = 15/2" by simp
  from best_value_correct[OF h1 h2 h3] obtain a where
    v: "fst (best_value ?p ?s) = Max (snd ` set ?am)" and
    a: "fst (best_action ?p ?s) = Some a" "map_of ?am a = Some (Max (snd ` set ?am))"
    by blast
  from a(2) have "a = Action 2 \<or> a = Action 3"
    unfolding m by (simp split: if_splits)
  with a(1) have "fst (best_action ?p ?s) \<in> {Some (Action 2), Some (Action 3)}" by auto
  with v h1 h3 show ?thesis unfolding m by simp
qed

text \<open>
  Claim C9 (frame property of \<^verbatim>\<open>update\<close>). After \<^verbatim>\<open>update(s, a, v)\<close> the entry of every
  other pair \<open>(s', a')\<close> is what it was before, present or absent, and so is the value read
  for it.
\<close>

theorem update_frame:
  assumes "trait s' \<noteq> trait s \<or> a' \<noteq> a"
  shows "entry (update p s a v) (trait s') a' = entry p (trait s') a' \<and>
         fst (value_of (update p s a v) s' a') = fst (value_of p s' a')"
  using assms by (auto simp: fst_value_of find_or_entry entry_update)

text \<open>Witness for C9: another action of the same state keeps its value.\<close>

theorem update_frame_witness:
  "Action (0::nat) \<noteq> Action 1 \<and>
   entry (update [(0, [(Action 0, 3)])] \<lparr>reward = 0, trait = 0::nat\<rparr> (Action (1::nat)) 5)
     0 (Action 0) = Some 3 \<and>
   fst (value_of (update [(0, [(Action 0, 3)])] \<lparr>reward = 0, trait = 0::nat\<rparr> (Action (1::nat)) 5)
     \<lparr>reward = 0, trait = 0\<rparr> (Action 0)) = 3"
  using update_frame[of "\<lparr>reward = 0, trait = 0::nat\<rparr>" "\<lparr>reward = 0, trait = 0::nat\<rparr>"
      "Action (0::nat)" "Action 1" "[(0, [(Action 0, 3)])]" 5]
  by (simp add: entry_def value_of_def find_or_def)

text \<open>
  Claim C10 (reads that insert). For a state absent from the table, \<^verbatim>\<open>best_value\<close> returns
  0 and \<^verbatim>\<open>best_action\<close> returns the null pointer, and both leave the same table behind: its
  key set has grown by that state, which is mapped to the empty action map, and every other
  key is mapped as before.
\<close>

theorem best_value_vivifies:
  assumes "trait s \<notin> fst ` set p"
  shows "fst (best_value p s) = 0 \<and> fst (best_action p s) = None \<and>
         snd (best_action p s) = snd (best_value p s) \<and>
         fst ` set (snd (best_value p s)) = insert (trait s) (fst ` set p) \<and>
         map_of (snd (best_value p s)) (trait s) = Some [] \<and>
         (\<forall>t. t \<noteq> trait s \<longrightarrow> map_of (snd (best_value p s)) t = map_of p t)"
proof -
  from assms have n: "map_of p (trait s) = None" by (simp add: map_of_eq_None_iff)
  then have f: "find_or [] p (trait s) = []" by (simp add: find_or_def)
  show ?thesis
    by (simp add: best_value_def best_action_def f keys_subscript map_of_subscript)
qed

text \<open>Witness for C10: a table with one state, read at another state.\<close>

theorem best_value_vivifies_witness:
  "trait \<lparr>reward = 0, trait = 7::nat\<rparr> \<notin> fst ` set [(0::nat, [(Action (1::nat), 3)])] \<and>
   fst (best_value [(0::nat, [(Action (1::nat), 3)])] \<lparr>reward = 0, trait = 7\<rparr>) = 0 \<and>
   fst (best_action [(0::nat, [(Action (1::nat), 3)])] \<lparr>reward = 0, trait = 7\<rparr>) = None \<and>
   fst ` set (snd (best_value [(0::nat, [(Action (1::nat), 3)])] \<lparr>reward = 0, trait = 7\<rparr>)) = {0, 7} \<and>
   fst ` set (snd (best_action [(0::nat, [(Action (1::nat), 3)])] \<lparr>reward = 0, trait = 7\<rparr>)) = {0, 7}"
proof -
  let ?p = "[(0::nat, [(Action (1::nat), 3::real)])]"
  let ?s = "\<lparr>reward = 0, trait = 7::nat\<rparr>"
  have h: "trait ?s \<notin> fst ` set ?p" by simp
  from best_value_vivifies[OF h] show ?thesis using h by auto
qed

subsection \<open>The two algorithms\<close>

text \<open>
  Claim C1 (one-step update), as amended. With \<open>alpha = 0.5\<close> and \<open>gamma = 0.9\<close>, on the
  two-step episode \<open>[(s0, a0), (s1, a1)]\<close> of two different states where \<open>s1\<close> carries the
  reward 1 and \<open>value_of(s0, a0)\<close> is 0 before the call: the call leaves
  \<open>value_of(s1, a1) = 1\<close> and \<open>value_of(s0, a0) = 0.5 * (reward(s0) + 0.9 * b)\<close>, where \<open>b\<close> is
  \<open>best_value(s1)\<close> of the table before the call. The update of index 0 runs before the
  terminal value is written, so it does not see the reward of \<open>s1\<close>.
\<close>

theorem one_step_update:
  assumes "trait s0 \<noteq> trait s1" and "fst (value_of p s0 a0) = 0" and "reward s1 = 1"
  shows "\<exists>p'. q_learning_apply \<lparr>alpha = 1/2, gamma = 9/10\<rparr>
                [\<lparr>state = s0, action = a0\<rparr>, \<lparr>state = s1, action = a1\<rparr>] p = Inr p' \<and>
              fst (value_of p' s1 a1) = 1 \<and>
              fst (value_of p' s0 a0) = 1/2 * (reward s0 + 9/10 * fst (best_value p s1))"
proof -
  let ?ep = "[\<lparr>state = s0, action = a0\<rparr>, \<lparr>state = s1, action = a1\<rparr>]"
  let ?ql = "\<lparr>alpha = 1/2, gamma = 9/10\<rparr>"
  let ?p1 = "snd (value_of p s0 a0)"
  let ?p2 = "snd (best_value ?p1 s1)"
  let ?v = "1/2 * (reward s0 + 9/10 * fst (best_value p s1))"
  have b: "fst (best_value ?p1 s1) = fst (best_value p s1)"
    using assms(1) by (intro fst_best_value_cong) (simp add: actions_value_of)
  have q0: "q_learning_q_value ?ql ?ep 0 p = Inr ((s0, a0, ?v), ?p2)"
    using assms(2) by (simp add: q_learning_q_value_inner b)
  have q1: "q_learning_q_value ?ql ?ep (Suc 0) q = Inr ((s1, a1, 1), q)" for q
    using assms(3) by (simp add: q_learning_q_value_last)
  have r: "q_learning_apply ?ql ?ep p = Inr (update (update ?p2 s0 a0 ?v) s1 a1 1)"
    by (simp add: q_learning_apply_def q_learning_loop.simps[of _ _ 0]
          q_learning_loop.simps[of _ _ "Suc 0"] q_learning_loop.simps[of _ _ "Suc (Suc 0)"] q0 q1)
  show ?thesis using assms(1)
    by (simp add: r value_of_update_same value_of_update_other)
qed

text \<open>
  Witness for C1: on a table that already holds \<open>value_of(s1, a1) = 1\<close>, and with
  \<open>reward(s0) = 0\<close>, the value written for \<open>(s0, a0)\<close> is 0.45.
\<close>

theorem one_step_update_witness:
  "trait \<lparr>reward = 0, trait = 0::nat\<rparr> \<noteq> trait \<lparr>reward = 1, trait = 1::nat\<rparr> \<and>
   fst (value_of [(1::nat, [(Action (1::nat), 1)])] \<lparr>reward = 0, trait = 0\<rparr> (Action 0)) = 0 \<and>
   reward \<lparr>reward = 1, trait = 1::nat\<rparr> = 1 \<and>
   fst (best_value [(1::nat, [(Action (1::nat), 1)])] \<lparr>reward = 1, trait = 1\<rparr>) = 1 \<and>
   (\<exists>p'. q_learning_apply \<lparr>alpha = 1/2, gamma = 9/10\<rparr>
            [\<lparr>state = \<lparr>reward = 0, trait = 0\<rparr>, action = Action 0\<rparr>,
             \<lparr>state = \<lparr>reward = 1, trait = 1\<rparr>, action = Action 1\<rparr>]
            [(1::nat, [(Action (1::nat), 1)])] = Inr p' \<and>
         fst (value_of p' \<lparr>reward = 1, trait = 1\<rparr> (Action 1)) = 1 \<and>
         fst (value_of p' \<lparr>reward = 0, trait = 0\<rparr> (Action 0)) = 9/20)"
proof -
  let ?s0 = "\<lparr>reward = 0, trait = 0::nat\<rparr>"
  let ?s1 = "\<lparr>reward = 1, trait = 1::nat\<rparr>"
  let ?p = "[(1::nat, [(Action (1::nat), 1::real)])]"
  have h1: "trait ?s0 \<noteq> trait ?s1" by simp
  have h2: "fst (value_of ?p ?s0 (Action 0)) = 0" by (simp add: value_of_def find_or_def)
  have h3: "reward ?s1 = 1" by simp
  have b: "fst (best_value ?p ?s1) = 1" by (simp add: best_value_def find_or_def)
  from one_step_update[OF h1 h2 h3, of "Action 1"] show ?thesis using h1 h2 b by simp
qed

text \<open>
  Counterexample to C1 as stated: on the freshly constructed table \<open>value_of(s0, a0)\<close> is 0
  before the call, and after it \<open>value_of(s1, a1)\<close> is 1 but \<open>value_of(s0, a0)\<close> is 0, not 0.45.
\<close>

theorem one_step_fresh_table_counterexample:
  "fst (value_of ([] :: (nat, nat) policy) \<lparr>reward = 0, trait = 0\<rparr> (Action 0)) = 0 \<and>
   q_learning_apply \<lparr>alpha = 1/2, gamma = 9/10\<rparr>
     [\<lparr>state = \<lparr>reward = 0, trait = 0::nat\<rparr>, action = Action (0::nat)\<rparr>,
      \<lparr>state = \<lparr>reward = 1, trait = 1\<rparr>, action = Action 1\<rparr>] []
     = Inr [(0, [(Action 0, 0)]), (1, [(Action 1, 1)])] \<and>
   fst (value_of [(0::nat, [(Action (0::nat), 0)]), (1, [(Action 1, 1)])]
          \<lparr>reward = 1, trait = 1\<rparr> (Action 1)) = 1 \<and>
   fst (value_of [(0::nat, [(Action (0::nat), 0)]), (1, [(Action 1, 1)])]
          \<lparr>reward = 0, trait = 0\<rparr> (Action 0)) = 0 \<and>
   fst (value_of [(0::nat, [(Action (0::nat), 0)]), (1, [(Action 1, 1)])]
          \<lparr>reward = 0, trait = 0\<rparr> (Action 0)) \<noteq> 9/20"
  by (simp add: q_learning_apply_def q_learning_loop.simps q_learning_q_value_def
        value_of_def best_value_def update_def find_or_def subscript_def Let_def)

text \<open>
  Claim C3 (empty episode), as amended. Called with an empty episode, either algorithm returns
  normally: its loops run zero times, no element of the episode is read, and the table (and
  the observation memory of the probabilistic algorithm) is left as it was. The code has no
  error of the kind \<open>InvalidEpisode\<close>.
\<close>

theorem empty_episode_noop:
  "q_learning_apply ql [] p = Inr p \<and> q_probabilistic_apply qp [] p = Inr (p, qp)"
  by (simp add: q_learning_apply_def q_learning_loop_end q_probabilistic_apply_def
        q_probabilistic_loop_end accounting_end)

text \<open>
  Counterexample to C3 as stated: on the empty episode both calls return the table they were
  given, with no error.
\<close>

theorem empty_episode_counterexample:
  "q_learning_apply \<lparr>alpha = 1/2, gamma = 9/10\<rparr> [] ([(0, [(Action 0, 1)])] :: (nat, nat) policy)
     = Inr [(0, [(Action 0, 1)])] \<and>
   q_probabilistic_apply \<lparr>gamma = 9/10, memory = []\<rparr> [] ([(0, [(Action 0, 1)])] :: (nat, nat) policy)
     = Inr ([(0, [(Action 0, 1)])], \<lparr>gamma = 9/10, memory = []\<rparr>)"
  by (simp add: q_learning_apply_def q_learning_loop.simps q_probabilistic_apply_def
        q_probabilistic_loop.simps accounting.simps)

text \<open>
  Claim C4 (terminal rule). For every episode that is not empty and has fewer than \<open>2 ^ 32\<close>
  links (the range in which the \<^verbatim>\<open>unsigned int\<close> counters of the loops do not wrap), either
  algorithm returns normally, and in the table it leaves the value of the last step's state and
  action is the reward of the last step's state, whatever the table held before and wherever
  else that pair occurs in the episode.
\<close>

theorem terminal_rule:
  assumes "ep \<noteq> []" and "length ep < 2 ^ 32"
  shows "(\<exists>p'. q_learning_apply ql ep p = Inr p' \<and>
            fst (value_of p' (state (last ep)) (action (last ep))) = reward (state (last ep))) \<and>
         (\<exists>p' qp'. q_probabilistic_apply qp ep p = Inr (p', qp') \<and>
            fst (value_of p' (state (last ep)) (action (last ep))) = reward (state (last ep)))"
proof
  from assms(1) have "0 < length ep" by simp
  from q_learning_loop_terminal[OF this, of ql p]
  show "\<exists>p'. q_learning_apply ql ep p = Inr p' \<and>
            fst (value_of p' (state (last ep)) (action (last ep))) = reward (state (last ep))"
    by (simp add: q_learning_apply_def)
next
  from q_probabilistic_apply_result[of qp ep p] assms(1)
  show "\<exists>p' qp'. q_probabilistic_apply qp ep p = Inr (p', qp') \<and>
            fst (value_of p' (state (last ep)) (action (last ep))) = reward (state (last ep))"
    by blast
qed

text \<open>
  Witness for C4: the last pair also occurs at index 0, and the table held the value 5 for it.
\<close>

theorem terminal_rule_witness:
  "[\<lparr>state = \<lparr>reward = 0, trait = 1::nat\<rparr>, action = Action (1::nat)\<rparr>,
    \<lparr>state = \<lparr>reward = 0, trait = 0\<rparr>, action = Action 0\<rparr>,
    \<lparr>state = \<lparr>reward = 1, trait = 1\<rparr>, action = Action 1\<rparr>] \<noteq> [] \<and>
   length
     [\<lparr>state = \<lparr>reward = 0, trait = 1::nat\<rparr>, action = Action (1::nat)\<rparr>,
      \<lparr>state = \<lparr>reward = 0, trait = 0\<rparr>, action = Action 0\<rparr>,
      \<lparr>state = \<lparr>reward = 1, trait = 1\<rparr>, action = Action 1\<rparr>] < 2 ^ 32 \<and>
   (\<exists>p'. q_learning_apply \<lparr>alpha = 1/2, gamma = 9/10\<rparr>
      [\<lparr>state = \<lparr>reward = 0, trait = 1::nat\<rparr>, action = Action (1::nat)\<rparr>,
       \<lparr>state = \<lparr>reward = 0, trait = 0\<rparr>, action = Action 0\<rparr>,
       \<lparr>state = \<lparr>reward = 1, trait = 1\<rparr>, action = Action 1\<rparr>]
      [(1, [(Action 1, 5)])] = Inr p' \<and>
      fst (value_of p' \<lparr>reward = 1, trait = 1\<rparr> (Action 1)) = 1) \<and>
   (\<exists>p' qp'. q_probabilistic_apply \<lparr>gamma = 9/10, memory = []\<rparr>
      [\<lparr>state = \<lparr>reward = 0, trait = 1::nat\<rparr>, action = Action (1::nat)\<rparr>,
       \<lparr>state = \<lparr>reward = 0, trait = 0\<rparr>, action = Action 0\<rparr>,
       \<lparr>state = \<lparr>reward = 1, trait = 1\<rparr>, action = Action 1\<rparr>]
      [(1, [(Action 1, 5)])] = Inr (p', qp') \<and>
      fst (value_of p' \<lparr>reward = 1, trait = 1\<rparr> (Action 1)) = 1)"
  using terminal_rule[of
      "[\<lparr>state = \<lparr>reward = 0, trait = 1::nat\<rparr>, action = Action (1::nat)\<rparr>,
        \<lparr>state = \<lparr>reward = 0, trait = 0\<rparr>, action = Action 0\<rparr>,
        \<lparr>state = \<lparr>reward = 1, trait = 1\<rparr>, action = Action 1\<rparr>]"
      "\<lparr>alpha = 1/2, gamma = 9/10\<rparr>" "[(1, [(Action 1, 5)])]"
      "\<lparr>gamma = 9/10, memory = []\<rparr>"]
  by simp

subsection \<open>The probabilistic algorithm\<close>

text \<open>
  Claim C2 (probabilistic update formula) fails on the code. The episode below takes the
  pair \<open>(s0, a0)\<close> to \<open>s1\<close> once and to \<open>s2\<close> once, so after the accounting loop the frequency
  is 1 and two successors are recorded. \<^verbatim>\<open>q_value\<close> divides the two \<^verbatim>\<open>size_t\<close> values as integers
  and writes \<open>0 * r + gamma * (q_next * 0) = 0\<close>, where the formula of the claim, with the real
  quotient \<open>1/2\<close>, \<open>r = 0\<close>, \<open>q_next = 1\<close> and \<open>gamma = 0.9\<close>, gives 0.45.
\<close>

theorem probabilistic_integer_quotient:
  "accounting
     [\<lparr>state = \<lparr>reward = 0, trait = 0::nat\<rparr>, action = Action (0::nat)\<rparr>,
      \<lparr>state = \<lparr>reward = 0, trait = 1\<rparr>, action = Action 1\<rparr>,
      \<lparr>state = \<lparr>reward = 0, trait = 0\<rparr>, action = Action 0\<rparr>,
      \<lparr>state = \<lparr>reward = 1, trait = 2\<rparr>, action = Action 2\<rparr>] 0 []
     = [(0, [(Action 0, [(1, 1), (2, 1)])]), (1, [(Action 1, [(0, 1)])])] \<and>
   q_probabilistic_q_value
     \<lparr>gamma = 9/10,
      memory = [(0, [(Action 0, [(1, 1), (2, 1)])]), (1, [(Action 1, [(0, 1)])])]\<rparr>
     [\<lparr>state = \<lparr>reward = 0, trait = 0::nat\<rparr>, action = Action (0::nat)\<rparr>,
      \<lparr>state = \<lparr>reward = 0, trait = 1\<rparr>, action = Action 1\<rparr>,
      \<lparr>state = \<lparr>reward = 0, trait = 0\<rparr>, action = Action 0\<rparr>,
      \<lparr>state = \<lparr>reward = 1, trait = 2\<rparr>, action = Action 2\<rparr>] 0 [(1, [(Action 1, 1)])]
     = Inr ((\<lparr>reward = 0, trait = 0\<rparr>, Action 0, 0),
            [(1, [(Action 1, 1)]), (0, [(Action 0, 0)])],
            \<lparr>gamma = 9/10,
             memory = [(0, [(Action 0, [(1, 1), (2, 1)])]), (1, [(Action 1, [(0, 1)])])]\<rparr>) \<and>
   fst (best_value [(1::nat, [(Action (1::nat), 1)]), (0, [(Action 0, 0)])]
          \<lparr>reward = 0, trait = 1\<rparr>) = 1 \<and>
   spec_prob [(0::nat, [(Action (0::nat), [(1, 1), (2, 1)])]), (1, [(Action 1, [(0, 1)])])]
     0 (Action 0) 1 = 1/2 \<and>
   spec_prob [(0::nat, [(Action (0::nat), [(1, 1), (2, 1)])]), (1, [(Action 1, [(0, 1)])])]
       0 (Action 0) 1 * 0 +
     9/10 * (1 * spec_prob [(0::nat, [(Action (0::nat), [(1, 1), (2, 1)])]), (1, [(Action 1, [(0, 1)])])]
       0 (Action 0) 1) = 9/20"
  by (simp add: accounting.simps observe_def q_probabilistic_q_value_def successors_def
        frequency_def spec_prob_def touch_def subscript_def value_of_def best_value_def
        find_or_def Let_def)

text \<open>
  Claim C5 (no division by zero). For an episode of fewer than \<open>2 ^ 32\<close> links (the range in
  which the \<^verbatim>\<open>unsigned int\<close> counters of the loops do not wrap) and at every index \<open>i\<close> but
  the last, the memory left by the accounting loop of a call records the transition taken at \<open>i\<close>, so the frequency map of the
  pair at \<open>i\<close> is not empty: the divisor in \<^verbatim>\<open>q_value\<close> is not zero, \<^verbatim>\<open>q_value\<close> returns a
  triplet and leaves the memory as it is, and the whole call returns normally with the memory of
  the accounting loop.
\<close>

theorem denominator_nonzero:
  assumes "Suc i < length ep" and "length ep < 2 ^ 32"
  shows "recorded (accounting ep 0 (memory qp))
           (trait (state (ep ! i))) (action (ep ! i)) (trait (state (ep ! Suc i))) \<and>
         length (successors (accounting ep 0 (memory qp))
                  (trait (state (ep ! i))) (action (ep ! i))) \<noteq> 0 \<and>
         (\<exists>t pm. q_probabilistic_q_value (qp\<lparr>memory := accounting ep 0 (memory qp)\<rparr>) ep i p =
                   Inr (t, pm, qp\<lparr>memory := accounting ep 0 (memory qp)\<rparr>)) \<and>
         (\<exists>p'. q_probabilistic_apply qp ep p =
                   Inr (p', qp\<lparr>memory := accounting ep 0 (memory qp)\<rparr>))"
proof -
  let ?m = "accounting ep 0 (memory qp)"
  have r: "recorded ?m (trait (state (ep ! i))) (action (ep ! i)) (trait (state (ep ! Suc i)))"
    using assms(1) by (simp add: accounting_recorded)
  have "successors ?m (trait (state (ep ! i))) (action (ep ! i)) \<noteq> []"
    by (rule recorded_successors[OF r])
  moreover have "\<exists>t pm. q_probabilistic_q_value (qp\<lparr>memory := ?m\<rparr>) ep i p =
                   Inr (t, pm, qp\<lparr>memory := ?m\<rparr>)"
    using q_probabilistic_q_value_inner[of i ep "qp\<lparr>memory := ?m\<rparr>" p] assms(1) r by simp
  moreover have "\<exists>p'. q_probabilistic_apply qp ep p = Inr (p', qp\<lparr>memory := ?m\<rparr>)"
    using q_probabilistic_apply_result[of qp ep p] by blast
  ultimately show ?thesis using r by simp
qed

text \<open>Witness for C5: a two-step episode on a new instance.\<close>

theorem denominator_nonzero_witness:
  "Suc 0 < length
     [\<lparr>state = \<lparr>reward = 0, trait = 0::nat\<rparr>, action = Action (0::nat)\<rparr>,
      \<lparr>state = \<lparr>reward = 1, trait = 1\<rparr>, action = Action 1\<rparr>] \<and>
   length
     [\<lparr>state = \<lparr>reward = 0, trait = 0::nat\<rparr>, action = Action (0::nat)\<rparr>,
      \<lparr>state = \<lparr>reward = 1, trait = 1\<rparr>, action = Action 1\<rparr>] < 2 ^ 32 \<and>
   length (successors
     (accounting
        [\<lparr>state = \<lparr>reward = 0, trait = 0::nat\<rparr>, action = Action (0::nat)\<rparr>,
         \<lparr>state = \<lparr>reward = 1, trait = 1\<rparr>, action = Action 1\<rparr>] 0 [])
     0 (Action 0)) \<noteq> 0 \<and>
   (\<exists>p'. q_probabilistic_apply \<lparr>gamma = 9/10, memory = []\<rparr>
      [\<lparr>state = \<lparr>reward = 0, trait = 0::nat\<rparr>, action = Action (0::nat)\<rparr>,
       \<lparr>state = \<lparr>reward = 1, trait = 1\<rparr>, action = Action 1\<rparr>] [] =
      Inr (p', \<lparr>gamma = 9/10, memory =
        accounting
          [\<lparr>state = \<lparr>reward = 0, trait = 0::nat\<rparr>, action = Action (0::nat)\<rparr>,
           \<lparr>state = \<lparr>reward = 1, trait = 1\<rparr>, action = Action 1\<rparr>] 0 []\<rparr>))"
proof -
  let ?ep = "[\<lparr>state = \<lparr>reward = 0, trait = 0::nat\<rparr>, action = Action (0::nat)\<rparr>,
      \<lparr>state = \<lparr>reward = 1, trait = 1\<rparr>, action = Action 1\<rparr>]"
  have h: "Suc 0 < length ?ep" by simp
  have b: "length ?ep < 2 ^ 32" by simp
  from denominator_nonzero[OF h b, of "\<lparr>gamma = 9/10, memory = []\<rparr>" "[]"]
  show ?thesis by simp
qed

text \<open>
  Claim C8 (accumulation of the counts), as amended. Feeding the same episode of fewer than
  \<open>2 ^ 32\<close> links (the range in which the \<^verbatim>\<open>unsigned int\<close> counters of the loops do not
  wrap) \<open>N\<close> times to the same instance always returns normally and adds to the counter of every transition \<open>N\<close> times
  the number of times the episode takes that transition, in \<^verbatim>\<open>size_t\<close> arithmetic: the number
  added is \<open>N\<close> exactly for a transition the episode takes once. As long as the sum stays below
  \<open>2 ^ 64\<close> the counter grows by that number and so does not decrease.
\<close>

theorem accounting_accumulates:
  assumes "length ep < 2 ^ 32"
  shows "\<exists>p' qp'. feed N qp ep p = Inr (p', qp') \<and>
     frequency (memory qp') s a n =
       frequency (memory qp) s a n + of_nat (N * count_list (transitions ep) (s, a, n)) \<and>
     (unat (frequency (memory qp) s a n) + N * count_list (transitions ep) (s, a, n) < 2 ^ 64 \<longrightarrow>
        unat (frequency (memory qp') s a n) =
          unat (frequency (memory qp) s a n) + N * count_list (transitions ep) (s, a, n))"
proof -
  from feed_frequency[of N qp ep p s a n] obtain p' qp' where
    f: "feed N qp ep p = Inr (p', qp')" and
    c: "frequency (memory qp') s a n =
          frequency (memory qp) s a n + of_nat (N * count_list (transitions ep) (s, a, n))"
    by blast
  have "unat (frequency (memory qp) s a n) + N * count_list (transitions ep) (s, a, n) < 2 ^ 64 \<longrightarrow>
        unat (frequency (memory qp') s a n) =
          unat (frequency (memory qp) s a n) + N * count_list (transitions ep) (s, a, n)"
    unfolding c by (rule impI) (rule unat_add_of_nat)
  with f c show ?thesis by blast
qed

text \<open>
  Witness for C8: an episode that takes the same transition twice, fed three times to a new
  instance, leaves the count 6.
\<close>

theorem accounting_accumulates_witness:
  "length
     [\<lparr>state = \<lparr>reward = 0, trait = 0::nat\<rparr>, action = Action (0::nat)\<rparr>,
      \<lparr>state = \<lparr>reward = 0, trait = 0\<rparr>, action = Action 0\<rparr>,
      \<lparr>state = \<lparr>reward = 1, trait = 0\<rparr>, action = Action 0\<rparr>] < 2 ^ 32 \<and>
   unat (frequency (memory \<lparr>gamma = 9/10, memory = ([] :: (nat, nat) observation)\<rparr>) 0 (Action 0) 0) +
     3 * count_list (transitions
       [\<lparr>state = \<lparr>reward = 0, trait = 0::nat\<rparr>, action = Action (0::nat)\<rparr>,
        \<lparr>state = \<lparr>reward = 0, trait = 0\<rparr>, action = Action 0\<rparr>,
        \<lparr>state = \<lparr>reward = 1, trait = 0\<rparr>, action = Action 0\<rparr>]) (0, Action 0, 0) < 2 ^ 64 \<and>
   (\<exists>p' qp'. feed 3 \<lparr>gamma = 9/10, memory = []\<rparr>
       [\<lparr>state = \<lparr>reward = 0, trait = 0::nat\<rparr>, action = Action (0::nat)\<rparr>,
        \<lparr>state = \<lparr>reward = 0, trait = 0\<rparr>, action = Action 0\<rparr>,
        \<lparr>state = \<lparr>reward = 1, trait = 0\<rparr>, action = Action 0\<rparr>] [] = Inr (p', qp') \<and>
      frequency (memory qp') 0 (Action 0) 0 = 6 \<and>
      unat (frequency (memory qp') 0 (Action 0) 0) = 6)"
proof -
  let ?ep = "[\<lparr>state = \<lparr>reward = 0, trait = 0::nat\<rparr>, action = Action (0::nat)\<rparr>,
        \<lparr>state = \<lparr>reward = 0, trait = 0\<rparr>, action = Action 0\<rparr>,
        \<lparr>state = \<lparr>reward = 1, trait = 0\<rparr>, action = Action 0\<rparr>]"
  let ?qp = "\<lparr>gamma = 9/10, memory = ([] :: (nat, nat) observation)\<rparr>"
  have "[0..<2] = [0, Suc 0]" by (simp add: upt_rec)
  then have n: "count_list (transitions ?ep) (0, Action 0, 0) = 2"
    by (simp add: transitions_def transition_at_def)
  have z: "frequency (memory ?qp) 0 (Action 0) 0 = 0"
    by (simp add: frequency_def successors_def find_or_def)
  have b: "length ?ep < 2 ^ 32" by simp
  from accounting_accumulates[OF b, where N = 3 and qp = ?qp and p = "[]"
      and s = 0 and a = "Action 0" and n = 0]
  show ?thesis unfolding n z by simp
qed

text \<open>
  Counterexample to C8 as stated: one call with an episode that takes the transition from
  \<open>(s0, a0)\<close> to \<open>s0\<close> twice raises its count from 0 to 2, not to 1.
\<close>

theorem accounting_repeated_transition_counterexample:
  "frequency (memory \<lparr>gamma = 9/10, memory = ([] :: (nat, nat) observation)\<rparr>) 0 (Action 0) 0 = 0 \<and>
   q_probabilistic_apply \<lparr>gamma = 9/10, memory = []\<rparr>
     [\<lparr>state = \<lparr>reward = 0, trait = 0::nat\<rparr>, action = Action (0::nat)\<rparr>,
      \<lparr>state = \<lparr>reward = 0, trait = 0\<rparr>, action = Action 0\<rparr>,
      \<lparr>state = \<lparr>reward = 1, trait = 0\<rparr>, action = Action 0\<rparr>] []
     = Inr ([(0, [(Action 0, 1)])], \<lparr>gamma = 9/10, memory = [(0, [(Action 0, [(0, 2)])])]\<rparr>) \<and>
   frequency (memory \<lparr>gamma = 9/10, memory = [(0::nat, [(Action (0::nat), [(0, 2)])])]\<rparr>)
     0 (Action 0) 0 = 2 \<and>
   (2 :: 64 word) \<noteq> 0 + 1"
  by (simp add: frequency_def successors_def find_or_def q_probabilistic_apply_def
        accounting.simps observe_def q_probabilistic_loop.simps q_probabilistic_q_value_def
        touch_def subscript_def value_of_def best_value_def update_def Let_def)

end
